theory Spec2Isabelle
  imports Main
begin

section \<open>The internal link checker (scripts/check\_internal\_links.py)\<close>

text \<open>
  The script walks the tree under the current directory, reads every \<open>.md\<close> file outside
  the excluded directories, extracts the inline links \<open>[label](target)\<close>, skips external
  and anchor-only targets, resolves the others to a candidate path and reports those whose
  candidate does not exist.

  A Python \<open>str\<close> is modelled as a \<open>string\<close>: the list of its code points, for
  documents whose code points are below 256. Paths follow \<open>posixpath\<close>.
\<close>

subsection \<open>String methods of Python used by the script\<close>

text \<open>\<open>s.startswith(p)\<close> and \<open>s.endswith(p)\<close>.\<close>

definition startswith :: "string \<Rightarrow> string \<Rightarrow> bool" where
  "startswith s p = (take (length p) s = p)"

definition endswith :: "string \<Rightarrow> string \<Rightarrow> bool" where
  "endswith s p = (length p \<le> length s \<and> drop (length s - length p) s = p)"

text \<open>
  \<open>str.isspace\<close> on one code point below 256: TAB to CR, FS to US, the space, NEL and
  the no-break space.
\<close>

definition isspace :: "char \<Rightarrow> bool" where
  "isspace c =
     (let n = (of_char c :: nat)
      in (9 \<le> n \<and> n \<le> 13) \<or> (28 \<le> n \<and> n \<le> 32) \<or> n = 133 \<or> n = 160)"

text \<open>\<open>s.strip()\<close>, \<open>s.lstrip('/')\<close> and \<open>s.split('#', 1)[0]\<close>.\<close>

definition strip :: "string \<Rightarrow> string" where
  "strip s = rev (dropWhile isspace (rev (dropWhile isspace s)))"

definition lstrip_slash :: "string \<Rightarrow> string" where
  "lstrip_slash s = dropWhile (\<lambda>c. c = CHR ''/'') s"

definition before_hash :: "string \<Rightarrow> string" where
  "before_hash s = takeWhile (\<lambda>c. c \<noteq> CHR ''#'') s"

text \<open>\<open>s.split(sep)\<close> for a one-character separator, and \<open>sep.join(xs)\<close>.\<close>

fun split_on :: "char \<Rightarrow> string \<Rightarrow> string list" where
  "split_on sep [] = [[]]"
| "split_on sep (c # cs) =
     (if c = sep then [] # split_on sep cs
      else (case split_on sep cs of
              [] \<Rightarrow> [[c]]
            | w # ws \<Rightarrow> (c # w) # ws))"

fun sep_join :: "string \<Rightarrow> string list \<Rightarrow> string" where
  "sep_join sep [] = []"
| "sep_join sep [x] = x"
| "sep_join sep (x # y # ys) = x @ sep @ sep_join sep (y # ys)"

text \<open>The decimal digits an f-string prints for a non-negative \<open>int\<close>.\<close>

definition digit_char :: "nat \<Rightarrow> char" where
  "digit_char d = ''0123456789'' ! d"

function str_nat :: "nat \<Rightarrow> string" where
  "str_nat n = (if n < 10 then [digit_char n] else str_nat (n div 10) @ [digit_char (n mod 10)])"
  by pat_completeness auto
termination
  by (relation "measure id") auto

declare str_nat.simps [simp del]

subsection \<open>posixpath.join and posixpath.normpath\<close>

text \<open>
  \<open>join(a, b)\<close>: an absolute \<open>b\<close> replaces \<open>a\<close>; otherwise \<open>b\<close> is appended, after a
  slash unless \<open>a\<close> is empty or already ends with one.
\<close>

definition join :: "string \<Rightarrow> string \<Rightarrow> string" where
  "join a b =
     (if startswith b ''/'' then b
      else if a = [] \<or> endswith a ''/'' then a @ b
      else a @ ''/'' @ b)"

text \<open>
  \<open>normpath\<close>: the loop over the components keeps \<open>new_comps\<close>; empty components and
  \<open>.\<close> are dropped, \<open>..\<close> removes the component before it unless there is none to
  remove (it is then kept on a relative path, dropped on an absolute one) or the one before
  is itself \<open>..\<close>.
\<close>

definition initial_slashes :: "string \<Rightarrow> nat" where
  "initial_slashes path =
     (if startswith path ''/''
      then (if startswith path ''//'' \<and> \<not> startswith path ''///'' then 2 else 1)
      else 0)"

definition norm_step :: "nat \<Rightarrow> string list \<Rightarrow> string \<Rightarrow> string list" where
  "norm_step slashes new_comps cmp =
     (if cmp = [] \<or> cmp = ''.'' then new_comps
      else if cmp \<noteq> ''..'' \<or> (slashes = 0 \<and> new_comps = [])
              \<or> (new_comps \<noteq> [] \<and> last new_comps = ''..'')
      then new_comps @ [cmp]
      else if new_comps \<noteq> [] then butlast new_comps
      else new_comps)"

definition normpath :: "string \<Rightarrow> string" where
  "normpath path =
     (if path = [] then ''.''
      else
        let slashes = initial_slashes path;
            comps = foldl (norm_step slashes) [] (split_on CHR ''/'' path);
            p = replicate slashes CHR ''/'' @ sep_join ''/'' comps
        in if p = [] then ''.'' else p)"

subsection \<open>The link pattern and finditer\<close>

text \<open>
  \<open>link_re\<close> is \<open>\[[^\]]*\]\(([^)]+)\)\<close>. A match that starts at the head of \<open>s\<close>
  reads an opening bracket, the longest run of characters other than \<open>]\<close>, the two
  characters \<open>](\<close>, the longest non-empty run of characters other than \<open>)\<close> (the
  group), and a closing parenthesis. Each starred class is followed by a character outside
  it, so giving characters back never helps and the greedy run is the only candidate.
  \<open>match_at\<close> returns the group and the text after the match.
\<close>

definition match_at :: "string \<Rightarrow> (string \<times> string) option" where
  "match_at s =
     (case s of
        [] \<Rightarrow> None
      | c # s1 \<Rightarrow>
          if c \<noteq> CHR ''['' then None
          else (case dropWhile (\<lambda>x. x \<noteq> CHR '']'') s1 of
                  c1 # c2 # s3 \<Rightarrow>
                    if c1 = CHR '']'' \<and> c2 = CHR ''(''
                    then (let g = takeWhile (\<lambda>x. x \<noteq> CHR '')'') s3;
                              s4 = dropWhile (\<lambda>x. x \<noteq> CHR '')'') s3
                          in if g = [] then None
                             else (case s4 of [] \<Rightarrow> None | _ # s5 \<Rightarrow> Some (g, s5)))
                    else None
                | _ \<Rightarrow> None))"

text \<open>
  \<open>link_re.finditer(txt)\<close>, as the list of the groups: the leftmost match is taken, and the
  search goes on after its last character; where no match starts, the search moves one
  character on.
\<close>

function finditer :: "string \<Rightarrow> string list" where
  "finditer s =
     (if s = [] then []
      else (case match_at s of
              Some (g, r) \<Rightarrow> g # finditer r
            | None \<Rightarrow> finditer (tl s)))"
  by pat_completeness auto
termination
proof (relation "measure length")
  show "wf (measure length)" by simp
next
  fix s :: string and x2 g r
  assume "s \<noteq> []" and m: "match_at s = Some x2" and x2: "(g, r) = x2"
  have dw: "\<And>P (xs :: string). length (dropWhile P xs) \<le> length xs"
    by (simp add: length_dropWhile_le)
  from m x2 obtain c s1 where s: "s = c # s1"
    by (cases s) (auto simp: match_at_def)
  from m x2 s obtain c1 c2 s3 where d1: "dropWhile (\<lambda>x. x \<noteq> CHR '']'') s1 = c1 # c2 # s3"
    by (auto simp: match_at_def split: if_splits list.splits)
  from m x2 s d1 obtain c3 where d2: "dropWhile (\<lambda>x. x \<noteq> CHR '')'') s3 = c3 # r"
    by (auto simp: match_at_def Let_def split: if_splits list.splits)
  have "length r < length s3"
    using dw [of "\<lambda>x. x \<noteq> CHR '')''" s3] d2 by simp
  moreover have "length s3 < length s1"
    using dw [of "\<lambda>x. x \<noteq> CHR '']''" s1] d1 by simp
  ultimately show "(r, s) \<in> measure length" using s by simp
next
  fix s :: string
  assume "s \<noteq> []"
  then show "(tl s, s) \<in> measure length" by (cases s) simp_all
qed

declare finditer.simps [simp del]



subsection \<open>The body of the loop over the matches\<close>

text \<open>
  The three \<open>continue\<close> statements, in the order of the source, and the path that is left
  after the fragment is cut off. \<open>classify\<close> is applied to the trimmed group.
\<close>

datatype verdict = Skip_external | Skip_image | Skip_anchor | Check string

definition classify :: "string \<Rightarrow> verdict" where
  "classify target =
     (if startswith target ''http://'' \<or> startswith target ''https://''
         \<or> startswith target ''mailto:'' \<or> startswith target ''javascript:''
      then Skip_external
      else if startswith target ''!'' then Skip_image
      else
        let path = before_hash target
        in if path = [] \<or> startswith path ''#'' then Skip_anchor else Check path)"

text \<open>\<open>ROOT\<close>, and the candidate of a path found in a document of directory \<open>dirpath\<close>.\<close>

definition ROOT :: string where
  "ROOT = ''.''"

definition candidate :: "string \<Rightarrow> string \<Rightarrow> string" where
  "candidate dirpath path =
     (if startswith path ''/'' then normpath (join ROOT (lstrip_slash path))
      else normpath (join dirpath path))"

text \<open>
  \<open>os.path.isfile\<close> and \<open>os.path.isdir\<close> are the answers of the operating system: two
  predicates on paths, parameters of the model. The chain of \<open>if\<close> and \<open>elif\<close> that sets
  \<open>exists\<close>:
\<close>

definition exists :: "(string \<Rightarrow> bool) \<Rightarrow> (string \<Rightarrow> bool) \<Rightarrow> string \<Rightarrow> bool" where
  "exists isfile isdir cand =
     (if isfile cand then True
      else if isfile (cand @ ''.md'') then True
      else if isdir cand \<and> isfile (join cand ''README.md'') then True
      else False)"

text \<open>The two globals of the script, and one pass through the body of the inner loop.\<close>

record scan_state =
  missing :: "(string \<times> string \<times> string) list"
  checked :: nat

definition initial_state :: scan_state where
  "initial_state = \<lparr>missing = [], checked = 0\<rparr>"

definition process_match ::
  "(string \<Rightarrow> bool) \<Rightarrow> (string \<Rightarrow> bool) \<Rightarrow> string \<Rightarrow> string \<Rightarrow> scan_state \<Rightarrow> string \<Rightarrow> scan_state"
where
  "process_match isfile isdir dirpath fp st grp =
     (let target = strip grp
      in case classify target of
           Check path \<Rightarrow>
             (let cand = candidate dirpath path;
                  ex = exists isfile isdir cand;
                  st1 = st\<lparr>checked := checked st + 1\<rparr>
              in if \<not> ex then st1\<lparr>missing := missing st1 @ [(fp, target, cand)]\<rparr> else st1)
         | _ \<Rightarrow> st)"

definition scan_text ::
  "(string \<Rightarrow> bool) \<Rightarrow> (string \<Rightarrow> bool) \<Rightarrow> string \<Rightarrow> string \<Rightarrow> scan_state \<Rightarrow> string \<Rightarrow> scan_state"
where
  "scan_text isfile isdir dirpath fp st txt =
     foldl (process_match isfile isdir dirpath fp) st (finditer txt)"

subsection \<open>The file tree and os.walk\<close>

text \<open>
  A directory lists its entries in the order in which \<open>os.scandir\<close> returns them. A file
  holds the text that \<open>open\<close> and \<open>read\<close> return, or \<open>None\<close> when one of them raises
  (no permission, bytes that are not UTF-8). Symbolic links are not modelled.
\<close>

datatype fsnode = File "string option" | Dir "(string \<times> fsnode) list"

datatype error = Read_error string

fun is_dir :: "fsnode \<Rightarrow> bool" where
  "is_dir (Dir es) = True"
| "is_dir (File c) = False"

fun content :: "fsnode \<Rightarrow> string option" where
  "content (File c) = c"
| "content (Dir es) = None"

definition skip_dirs :: "string set" where
  "skip_dirs = {''.git'', ''node_modules'', ''db''}"

text \<open>
  \<open>os.walk(top)\<close>, top-down: it yields \<open>(dirpath, dirs, files)\<close> for \<open>top\<close>, the caller
  replaces the contents of \<open>dirs\<close> (here by the names that \<open>keep\<close> accepts), and the walk
  goes down into the directories left in \<open>dirs\<close>, in order, each one wholly before the
  next. A file of \<open>files\<close> is paired with what reading it gives. Walking something that is
  not a directory yields nothing.
\<close>

type_synonym visit = "string \<times> string list \<times> (string \<times> string option) list"

fun walk :: "(string \<Rightarrow> bool) \<Rightarrow> string \<Rightarrow> fsnode \<Rightarrow> visit list" where
  "walk keep dirpath (File c) = []"
| "walk keep dirpath (Dir es) =
     (let dirs = filter (\<lambda>e. keep (fst e)) (filter (\<lambda>e. is_dir (snd e)) es);
          files = map (\<lambda>e. (fst e, content (snd e))) (filter (\<lambda>e. \<not> is_dir (snd e)) es)
      in (dirpath, map fst dirs, files)
           # concat (map (\<lambda>e. walk keep (join dirpath (fst e)) (snd e)) dirs))"

subsection \<open>Iterating over the files and the directories\<close>

text \<open>A file that cannot be read raises, and the exception ends the run.\<close>

fun scan_files ::
  "(string \<Rightarrow> bool) \<Rightarrow> (string \<Rightarrow> bool) \<Rightarrow> string \<Rightarrow> scan_state \<Rightarrow>
   (string \<times> string option) list \<Rightarrow> error + scan_state"
where
  "scan_files isfile isdir dirpath st [] = Inr st"
| "scan_files isfile isdir dirpath st ((fn, c) # files) =
     (if \<not> endswith fn ''.md'' then scan_files isfile isdir dirpath st files
      else
        let fp = join dirpath fn
        in case c of
             None \<Rightarrow> Inl (Read_error fp)
           | Some txt \<Rightarrow>
               scan_files isfile isdir dirpath (scan_text isfile isdir dirpath fp st txt) files)"

fun scan_visits ::
  "(string \<Rightarrow> bool) \<Rightarrow> (string \<Rightarrow> bool) \<Rightarrow> scan_state \<Rightarrow> visit list \<Rightarrow> error + scan_state"
where
  "scan_visits isfile isdir st [] = Inr st"
| "scan_visits isfile isdir st ((dirpath, dirs, files) # vs) =
     (case scan_files isfile isdir dirpath st files of
        Inl e \<Rightarrow> Inl e
      | Inr st1 \<Rightarrow> scan_visits isfile isdir st1 vs)"

definition scan :: "(string \<Rightarrow> bool) \<Rightarrow> (string \<Rightarrow> bool) \<Rightarrow> fsnode \<Rightarrow> error + scan_state" where
  "scan isfile isdir root =
     scan_visits isfile isdir initial_state (walk (\<lambda>d. d \<notin> skip_dirs) ROOT root)"

subsection \<open>The report\<close>

text \<open>What the script prints on standard output, and its exit status.\<close>

definition failure_line :: "string \<times> string \<times> string \<Rightarrow> string" where
  "failure_line f =
     (case f of (src, target, cand) \<Rightarrow>
        ''In '' @ src @ '': -> '' @ target @ ''  (resolved: '' @ cand @ '')'' @ [CHR 0x0A])"

definition report :: "scan_state \<Rightarrow> string \<times> nat" where
  "report st =
     (if missing st = []
      then (''Checked '' @ str_nat (checked st)
              @ '' links: no missing internal markdown links found.'' @ [CHR 0x0A], 0)
      else (''Checked '' @ str_nat (checked st) @ '' links: ''
              @ str_nat (length (missing st)) @ '' missing internal links:'' @ [CHR 0x0A]
              @ [CHR 0x0A] @ concat (map failure_line (missing st)), 2))"

definition main :: "(string \<Rightarrow> bool) \<Rightarrow> (string \<Rightarrow> bool) \<Rightarrow> fsnode \<Rightarrow> error + string \<times> nat" where
  "main isfile isdir root =
     (case scan isfile isdir root of
        Inl e \<Rightarrow> Inl e
      | Inr st \<Rightarrow> Inr (report st))"

subsection \<open>The part of the tree that the scan reads\<close>

text \<open>
  \<open>poison\<close> makes every file of a subtree unreadable. \<open>hide\<close> does so for every
  subtree below a directory whose name is in \<open>skip_dirs\<close> and for every file whose name
  does not end with \<open>.md\<close>; it keeps the names, the order of the entries and the text of
  the other files.
\<close>

fun poison :: "fsnode \<Rightarrow> fsnode" where
  "poison (File c) = File None"
| "poison (Dir es) = Dir (map (\<lambda>e. (fst e, poison (snd e))) es)"

fun hide :: "fsnode \<Rightarrow> fsnode" where
  "hide (File c) = File c"
| "hide (Dir es) =
     Dir (map (\<lambda>e. (fst e,
                    if is_dir (snd e)
                    then (if fst e \<in> skip_dirs then poison (snd e) else hide (snd e))
                    else (if endswith (fst e) ''.md'' then snd e else File None))) es)"

text \<open>What \<open>hide\<close> does to the visits of the walk: the unread files lose their text.\<close>

definition blank_files :: "(string \<times> string option) list \<Rightarrow> (string \<times> string option) list" where
  "blank_files files = map (\<lambda>f. (fst f, if endswith (fst f) ''.md'' then snd f else None)) files"

definition blank_visit :: "visit \<Rightarrow> visit" where
  "blank_visit v = (fst v, fst (snd v), blank_files (snd (snd v)))"

text \<open>The number that a string of decimal digits denotes.\<close>

definition decimal_value :: "string \<Rightarrow> nat" where
  "decimal_value s = foldl (\<lambda>a c. 10 * a + (of_char c - 48)) 0 s"

subsection \<open>An example tree\<close>

text \<open>
  A small documentation tree with a root-relative link, a link to a directory with a
  \<open>README.md\<close>, an image, a broken link with a fragment, an external link, an anchor, an
  empty target, a file that is not Markdown and cannot be read, and an excluded directory.
  \<open>example_isfile\<close> and \<open>example_isdir\<close> answer for the same tree.
\<close>

definition example_root :: fsnode where
  "example_root =
     Dir [(''README.md'', File (Some
             ''See [guide](/guide), [docs](docs/), ![logo](logo.png), [gone]( ../missing-page#top ) and [web](http://example.com).'')),
          (''guide.md'', File (Some ''[home](./README) [top](#top) [empty]()'')),
          (''notes.txt'', File None),
          (''db'', Dir [(''dump.md'', File (Some ''[x](nowhere)''))]),
          (''docs'', Dir [(''README.md'', File (Some ''[up](../README.md) [sib](./sibling)'')),
                         (''sibling.md'', File (Some []))])]"

definition example_isfile :: "string \<Rightarrow> bool" where
  "example_isfile p = (p \<in> set [''README.md'', ''guide.md'', ''notes.txt'', ''db/dump.md'',
                                   ''docs/README.md'', ''docs/sibling.md''])"

definition example_isdir :: "string \<Rightarrow> bool" where
  "example_isdir p = (p \<in> set [''.'', ''db'', ''docs''])"

text \<open>The same tree with other contents in \<open>db\<close> and in \<open>notes.txt\<close>.\<close>

definition example_root_changed :: fsnode where
  "example_root_changed =
     Dir [(''README.md'', File (Some
             ''See [guide](/guide), [docs](docs/), ![logo](logo.png), [gone]( ../missing-page#top ) and [web](http://example.com).'')),
          (''guide.md'', File (Some ''[home](./README) [top](#top) [empty]()'')),
          (''notes.txt'', File (Some ''[n](nothing-here)'')),
          (''db'', Dir [(''dump.md'', File None)]),
          (''docs'', Dir [(''README.md'', File (Some ''[up](../README.md) [sib](./sibling)'')),
                         (''sibling.md'', File (Some []))])]"

text \<open>A tree with one document, whose only link resolves.\<close>

definition example_clean :: fsnode where
  "example_clean = Dir [(''README.md'', File (Some ''[self](README.md#intro)''))]"

section \<open>Properties\<close>

subsection \<open>Prefixes and fragments\<close>

lemma startswith_Cons: "startswith s (c # p) \<longleftrightarrow> (\<exists>s'. s = c # s' \<and> startswith s' p)"
  by (cases s) (auto simp: startswith_def)

lemma before_hash_no_hash: "CHR ''#'' \<notin> set (before_hash t)"
  by (auto simp: before_hash_def dest: set_takeWhileD)

lemma before_hash_not_startswith: "\<not> startswith (before_hash t) ''#''"
  using before_hash_no_hash [of t] by (auto simp: startswith_Cons)

lemma before_hash_split:
  "t = before_hash t \<or> (\<exists>frag. t = before_hash t @ CHR ''#'' # frag)"
proof (cases "dropWhile (\<lambda>c. c \<noteq> CHR ''#'') t")
  case Nil
  then have "\<forall>x\<in>set t. x \<noteq> CHR ''#''" by simp
  then have "before_hash t = t"
    unfolding before_hash_def by (simp add: takeWhile_eq_all_conv)
  then show ?thesis by metis
next
  case (Cons c frag)
  then have "c = CHR ''#''"
    using hd_dropWhile [of "\<lambda>c. c \<noteq> CHR ''#''" t] by simp
  then have "t = before_hash t @ CHR ''#'' # frag"
    using Cons takeWhile_dropWhile_id [of "\<lambda>c. c \<noteq> CHR ''#''" t]
    by (simp add: before_hash_def)
  then show ?thesis by blast
qed

subsection \<open>One pass through the loop body\<close>

lemma process_match_Check:
  "classify (strip grp) = Check path \<Longrightarrow>
   process_match isfile isdir dirpath fp st grp =
     st\<lparr>checked := checked st + 1,
        missing := (if exists isfile isdir (candidate dirpath path) then missing st
                    else missing st @ [(fp, strip grp, candidate dirpath path)])\<rparr>"
  by (simp add: process_match_def Let_def)

text \<open>
  C3. A link whose trimmed target begins with \<open>http://\<close>, \<open>https://\<close>, \<open>mailto:\<close> or
  \<open>javascript:\<close>, or with \<open>!\<close>, is skipped before any resolution: whatever the file
  system answers, the pass leaves the checked count and the unresolved sequence as they
  were, and the verdict is one of the two first \<open>continue\<close> statements.
\<close>

theorem external_and_image_skipped:
  assumes "startswith (strip grp) ''http://'' \<or> startswith (strip grp) ''https://''
           \<or> startswith (strip grp) ''mailto:'' \<or> startswith (strip grp) ''javascript:''
           \<or> startswith (strip grp) ''!''"
  shows "process_match isfile isdir dirpath fp st grp = st
         \<and> (classify (strip grp) = Skip_external \<or> classify (strip grp) = Skip_image)"
  using assms by (auto simp: process_match_def classify_def Let_def)

theorem external_and_image_skipped_witness:
  "startswith (strip '' http://example.com '') ''http://''
   \<and> process_match example_isfile example_isdir ''.'' ''./README.md'' initial_state
         '' http://example.com '' = initial_state
   \<and> startswith (strip ''!banner.png'') ''!''
   \<and> process_match example_isfile example_isdir ''.'' ''./README.md'' initial_state
         ''!banner.png'' = initial_state"
proof -
  have h1: "startswith (strip '' http://example.com '') ''http://''" by code_simp
  have h2: "startswith (strip ''!banner.png'') ''!''" by code_simp
  show ?thesis
    using h1 h2
      external_and_image_skipped [of "'' http://example.com ''" example_isfile example_isdir
        "''.''" "''./README.md''" initial_state]
      external_and_image_skipped [of "''!banner.png''" example_isfile example_isdir
        "''.''" "''./README.md''" initial_state]
    by blast
qed

text \<open>
  C4. For a trimmed target that passes the external and the \<open>!\<close> checks, the path is the
  part of the target before its first \<open>#\<close> (the whole target when it has none). When that
  part is empty, or the target starts with \<open>#\<close>, the link is an anchor inside the document
  and the pass changes neither the checked count nor the unresolved sequence; otherwise the
  link goes on to resolution with that path.
\<close>

theorem anchor_skipped:
  assumes "target = strip grp"
    and "\<not> startswith target ''http://''" and "\<not> startswith target ''https://''"
    and "\<not> startswith target ''mailto:''" and "\<not> startswith target ''javascript:''"
    and "\<not> startswith target ''!''"
  shows "CHR ''#'' \<notin> set (before_hash target)
         \<and> (target = before_hash target \<or> (\<exists>frag. target = before_hash target @ CHR ''#'' # frag))
         \<and> classify target =
             (if before_hash target = [] \<or> startswith target ''#'' then Skip_anchor
              else Check (before_hash target))
         \<and> (before_hash target = [] \<or> startswith target ''#'' \<longrightarrow>
               process_match isfile isdir dirpath fp st grp = st)"
proof -
  have "startswith target ''#'' \<Longrightarrow> before_hash target = []"
    by (auto simp: startswith_Cons before_hash_def)
  then have c: "classify target =
             (if before_hash target = [] \<or> startswith target ''#'' then Skip_anchor
              else Check (before_hash target))"
    using assms(2-6) before_hash_not_startswith [of target]
    by (auto simp: classify_def Let_def)
  then have "before_hash target = [] \<or> startswith target ''#'' \<Longrightarrow>
               process_match isfile isdir dirpath fp st grp = st"
    using assms(1) by (simp add: process_match_def Let_def)
  with c before_hash_no_hash [of target] before_hash_split [of target]
  show ?thesis by blast
qed

theorem anchor_skipped_witness:
  "\<not> startswith ''#top'' ''http://'' \<and> \<not> startswith ''#top'' ''!''
   \<and> classify ''#top'' = Skip_anchor
   \<and> process_match example_isfile example_isdir ''.'' ''./guide.md'' initial_state '' #top''
       = initial_state
   \<and> classify ''guide.md#intro'' = Check ''guide.md''"
proof -
  have t1: "''#top'' = strip '' #top''" by code_simp
  have n1: "\<not> startswith ''#top'' ''http://''" "\<not> startswith ''#top'' ''https://''"
    "\<not> startswith ''#top'' ''mailto:''" "\<not> startswith ''#top'' ''javascript:''"
    "\<not> startswith ''#top'' ''!''"
    by code_simp+
  have b1: "startswith ''#top'' ''#''" by code_simp
  have t2: "''guide.md#intro'' = strip ''guide.md#intro''" by code_simp
  have n2: "\<not> startswith ''guide.md#intro'' ''http://''"
    "\<not> startswith ''guide.md#intro'' ''https://''"
    "\<not> startswith ''guide.md#intro'' ''mailto:''"
    "\<not> startswith ''guide.md#intro'' ''javascript:''"
    "\<not> startswith ''guide.md#intro'' ''!''"
    by code_simp+
  have b2: "before_hash ''guide.md#intro'' = ''guide.md''"
    "\<not> startswith ''guide.md#intro'' ''#''"
    by code_simp+
  show ?thesis
    using n1 b1 b2
      anchor_skipped [OF t1 n1, of example_isfile example_isdir "''.''" "''./guide.md''"
        initial_state]
      anchor_skipped [OF t2 n2, of example_isfile example_isdir "''.''" "''./guide.md''"
        initial_state]
    by simp
qed

subsection \<open>Resolution\<close>

lemma lstrip_slash_not_abs: "\<not> startswith (lstrip_slash p) ''/''"
proof -
  have "lstrip_slash p = [] \<or> hd (lstrip_slash p) \<noteq> CHR ''/''"
    unfolding lstrip_slash_def using hd_dropWhile [of "\<lambda>c. c = CHR ''/''" p] by blast
  then show ?thesis by (auto simp: startswith_Cons)
qed

lemma join_ROOT: "join ROOT (lstrip_slash p) = ''./'' @ lstrip_slash p"
  using lstrip_slash_not_abs [of p] by (simp add: join_def ROOT_def endswith_def)

text \<open>
  C1. For a link that survives the skip rules, with candidate \<open>cand\<close>: the candidate is
  judged existing exactly when it is a regular file, or it is one with \<open>.md\<close> appended, or
  it is a directory and \<open>README.md\<close> joined to it is a regular file; the checks are tried in
  this order, and the link is appended to the unresolved sequence exactly when all three
  fail.
\<close>

theorem resolution_three_checks:
  assumes "classify (strip grp) = Check path" and "cand = candidate dirpath path"
  shows "(exists isfile isdir cand \<longleftrightarrow>
            isfile cand \<or> isfile (cand @ ''.md'')
            \<or> (isdir cand \<and> isfile (join cand ''README.md'')))
         \<and> missing (process_match isfile isdir dirpath fp st grp) =
             (if isfile cand then missing st
              else if isfile (cand @ ''.md'') then missing st
              else if isdir cand \<and> isfile (join cand ''README.md'') then missing st
              else missing st @ [(fp, strip grp, cand)])"
  using assms by (simp add: process_match_Check exists_def)

theorem resolution_three_checks_witness:
  "classify (strip ''docs/'') = Check ''docs/'' \<and> ''docs'' = candidate ''.'' ''docs/''
   \<and> \<not> example_isfile ''docs'' \<and> \<not> example_isfile ''docs.md''
   \<and> example_isdir ''docs'' \<and> example_isfile (join ''docs'' ''README.md'')
   \<and> exists example_isfile example_isdir ''docs''
   \<and> missing (process_match example_isfile example_isdir ''.'' ''./README.md'' initial_state
         ''docs/'') = []
   \<and> missing (process_match example_isfile example_isdir ''.'' ''./README.md'' initial_state
         ''logo.png'') = [(''./README.md'', ''logo.png'', ''logo.png'')]"
proof -
  have h1: "classify (strip ''docs/'') = Check ''docs/''" by code_simp
  have h2: "candidate ''.'' ''docs/'' = ''docs''" by code_simp
  have e1: "\<not> example_isfile ''docs''" "\<not> example_isfile (''docs'' @ ''.md'')"
    "example_isdir ''docs''" "example_isfile (join ''docs'' ''README.md'')"
    by code_simp+
  have h3: "classify (strip ''logo.png'') = Check ''logo.png''" by code_simp
  have h4: "candidate ''.'' ''logo.png'' = ''logo.png''" by code_simp
  have e2: "\<not> example_isfile ''logo.png''" "\<not> example_isfile (''logo.png'' @ ''.md'')"
    "\<not> example_isdir ''logo.png''" "strip ''logo.png'' = ''logo.png''"
    by code_simp+
  show ?thesis
    using h1 h2 e1 e2
      resolution_three_checks [OF h1 h2 [symmetric], of example_isfile example_isdir
        "''./README.md''" initial_state]
      resolution_three_checks [OF h3 h4 [symmetric], of example_isfile example_isdir
        "''./README.md''" initial_state]
    by (simp add: initial_state_def)
qed

text \<open>
  C2. For a link that survives the skip rules, the path is the target without its fragment.
  When the path starts with a slash, all its leading slashes are removed and the rest is
  joined to the scan root \<open>.\<close> and normalised, whatever the directory of the document.
  Otherwise the path is joined to \<open>dirpath\<close> and normalised, where \<open>dirpath\<close> is the
  directory of the document: a file \<open>fn\<close> listed in \<open>dirpath\<close> is scanned as
  \<open>join dirpath fn\<close> with that same \<open>dirpath\<close>. The candidate computed in this way is the
  one that is checked and, on failure, recorded.
\<close>

theorem candidate_resolution:
  assumes "classify (strip grp) = Check path"
  shows "path = before_hash (strip grp)
         \<and> (startswith path ''/'' \<longrightarrow>
               candidate dirpath path = normpath (join ROOT (lstrip_slash path))
               \<and> join ROOT (lstrip_slash path) = ''./'' @ dropWhile (\<lambda>c. c = CHR ''/'') path)
         \<and> (\<not> startswith path ''/'' \<longrightarrow>
               candidate dirpath path = normpath (join dirpath path)
               \<and> join dirpath path =
                   (if dirpath = [] \<or> endswith dirpath ''/'' then dirpath @ path
                    else dirpath @ ''/'' @ path))
         \<and> scan_files isfile isdir dirpath st [(fn, Some doc)] =
             Inr (if endswith fn ''.md''
                  then scan_text isfile isdir dirpath (join dirpath fn) st doc else st)
         \<and> (\<not> exists isfile isdir (candidate dirpath path) \<longrightarrow>
               missing (process_match isfile isdir dirpath fp st grp) =
                 missing st @ [(fp, strip grp, candidate dirpath path)])"
proof -
  have "path = before_hash (strip grp)"
    using assms by (auto simp: classify_def Let_def split: if_splits)
  moreover have "join ROOT (lstrip_slash path) = ''./'' @ dropWhile (\<lambda>c. c = CHR ''/'') path"
    using join_ROOT [of path] by (simp add: lstrip_slash_def)
  ultimately show ?thesis
    using assms by (simp add: process_match_Check candidate_def join_def Let_def)
qed

theorem candidate_resolution_witness:
  "classify (strip ''/guide'') = Check ''/guide'' \<and> startswith ''/guide'' ''/''
   \<and> candidate ''./docs'' ''/guide'' = ''guide''
   \<and> classify (strip ''./sibling'') = Check ''./sibling'' \<and> \<not> startswith ''./sibling'' ''/''
   \<and> candidate ''./docs'' ''./sibling'' = ''docs/sibling''"
proof -
  have h1: "classify (strip ''/guide'') = Check ''/guide''" by code_simp
  have h2: "classify (strip ''./sibling'') = Check ''./sibling''" by code_simp
  have s: "startswith ''/guide'' ''/''" "\<not> startswith ''./sibling'' ''/''" by code_simp+
  have n: "normpath (join ROOT (lstrip_slash ''/guide'')) = ''guide''"
    "normpath (join ''./docs'' ''./sibling'') = ''docs/sibling''"
    by code_simp+
  show ?thesis
    using h1 h2 s n
      candidate_resolution [OF h1, of "''./docs''"]
      candidate_resolution [OF h2, of "''./docs''"]
    by simp
qed

subsection \<open>The counters\<close>

lemma process_match_inv:
  "length (missing st) \<le> checked st \<Longrightarrow>
   length (missing (process_match isfile isdir dirpath fp st grp))
     \<le> checked (process_match isfile isdir dirpath fp st grp)"
  by (cases "classify (strip grp)") (simp_all add: process_match_def Let_def)

lemma foldl_process_match_inv:
  "length (missing st) \<le> checked st \<Longrightarrow>
   length (missing (foldl (process_match isfile isdir dirpath fp) st gs))
     \<le> checked (foldl (process_match isfile isdir dirpath fp) st gs)"
  by (induction gs arbitrary: st) (simp_all add: process_match_inv)

lemma scan_text_inv:
  "length (missing st) \<le> checked st \<Longrightarrow>
   length (missing (scan_text isfile isdir dirpath fp st doc))
     \<le> checked (scan_text isfile isdir dirpath fp st doc)"
  unfolding scan_text_def by (rule foldl_process_match_inv)

lemma scan_files_inv:
  "length (missing st) \<le> checked st \<Longrightarrow> scan_files isfile isdir dirpath st files = Inr st' \<Longrightarrow>
   length (missing st') \<le> checked st'"
proof (induction files arbitrary: st)
  case Nil
  then show ?case by simp
next
  case (Cons f files)
  obtain fn c where f: "f = (fn, c)" by (cases f)
  show ?case
  proof (cases "endswith fn ''.md''")
    case False
    with Cons f show ?thesis by simp
  next
    case True
    with Cons.prems f obtain doc where c: "c = Some doc"
      by (cases c) (simp_all add: Let_def)
    with Cons.prems f True
    have "scan_files isfile isdir dirpath
            (scan_text isfile isdir dirpath (join dirpath fn) st doc) files = Inr st'"
      by (simp add: Let_def)
    then show ?thesis
      using Cons.IH scan_text_inv [OF Cons.prems(1)] by blast
  qed
qed

lemma scan_visits_inv:
  "length (missing st) \<le> checked st \<Longrightarrow> scan_visits isfile isdir st vs = Inr st' \<Longrightarrow>
   length (missing st') \<le> checked st'"
proof (induction vs arbitrary: st)
  case Nil
  then show ?case by simp
next
  case (Cons v vs)
  obtain dirpath dirs files where v: "v = (dirpath, dirs, files)" by (cases v)
  from Cons.prems v obtain st1 where
    s1: "scan_files isfile isdir dirpath st files = Inr st1"
    and s2: "scan_visits isfile isdir st1 vs = Inr st'"
    by (auto split: sum.splits)
  from scan_files_inv [OF Cons.prems(1) s1] Cons.IH s2 show ?case by blast
qed

text \<open>
  C5. A link that survives the skip rules adds exactly one to the checked count, whether
  its candidate exists or not, and when the candidate does not exist the triple of the
  document path, the trimmed target and the candidate is appended to the unresolved
  sequence. At the end of a run that was not aborted, the unresolved sequence is no longer
  than the checked count.
\<close>

theorem checked_counts_every_survivor:
  "(classify (strip grp) = Check path \<longrightarrow>
      checked (process_match isfile isdir dirpath fp st grp) = checked st + 1
      \<and> missing (process_match isfile isdir dirpath fp st grp) =
          (if exists isfile isdir (candidate dirpath path) then missing st
           else missing st @ [(fp, strip grp, candidate dirpath path)]))
   \<and> (scan isfile isdir root = Inr final \<longrightarrow> length (missing final) \<le> checked final)"
proof -
  have "scan isfile isdir root = Inr final \<Longrightarrow> length (missing final) \<le> checked final"
    unfolding scan_def
    using scan_visits_inv [of initial_state isfile isdir _ final]
    by (simp add: initial_state_def)
  then show ?thesis by (auto simp: process_match_Check)
qed

theorem checked_counts_every_survivor_witness:
  "scan example_isfile example_isdir example_root =
     Inr \<lparr>missing = [(''./README.md'', ''logo.png'', ''logo.png''),
                      (''./README.md'', ''../missing-page#top'', ''../missing-page'')],
          checked = 7\<rparr>
   \<and> classify (strip '' ../missing-page#top '') = Check ''../missing-page''
   \<and> checked (process_match example_isfile example_isdir ''.'' ''./README.md''
        \<lparr>missing = [], checked = 3\<rparr> '' ../missing-page#top '') = 4
   \<and> length [(''./README.md'', ''logo.png'', ''logo.png''),
              (''./README.md'', ''../missing-page#top'', ''../missing-page'')] \<le> (7::nat)"
proof -
  have s: "scan example_isfile example_isdir example_root =
     Inr \<lparr>missing = [(''./README.md'', ''logo.png'', ''logo.png''),
                      (''./README.md'', ''../missing-page#top'', ''../missing-page'')],
          checked = 7\<rparr>"
    by code_simp
  have c: "classify (strip '' ../missing-page#top '') = Check ''../missing-page''"
    by code_simp
  show ?thesis
    using s c
      checked_counts_every_survivor [of "'' ../missing-page#top ''" "''../missing-page''"
        example_isfile example_isdir "''.''" "''./README.md''" "\<lparr>missing = [], checked = 3\<rparr>"
        example_root
        "\<lparr>missing = [(''./README.md'', ''logo.png'', ''logo.png''),
                      (''./README.md'', ''../missing-page#top'', ''../missing-page'')],
          checked = 7\<rparr>"]
    by simp
qed

subsection \<open>The report\<close>

lemma digit_char_digit: "k < 10 \<Longrightarrow> digit_char k \<in> set ''0123456789''"
  unfolding digit_char_def by (rule nth_mem) simp

lemma str_nat_digits: "c \<in> set (str_nat n) \<Longrightarrow> c \<in> set ''0123456789''"
proof (induction n rule: str_nat.induct)
  case (1 n)
  show ?case
  proof (cases "n < 10")
    case True
    with "1.prems" have "c = digit_char n" by (subst (asm) str_nat.simps) simp
    with True show ?thesis using digit_char_digit by blast
  next
    case False
    with "1.prems" have "c \<in> set (str_nat (n div 10)) \<or> c = digit_char (n mod 10)"
      by (subst (asm) str_nat.simps) auto
    then show ?thesis
      using "1.IH" [OF False] digit_char_digit [of "n mod 10"] by auto
  qed
qed

lemma digit_char_code: "k < 10 \<Longrightarrow> (of_char (digit_char k) :: nat) = 48 + k"
proof -
  assume "k < 10"
  then have "k \<in> {0, 1, 2, 3, 4, 5, 6, 7, 8, 9}" by auto
  then show ?thesis unfolding digit_char_def by (elim insertE emptyE) simp_all
qed

text \<open>The digits printed for a count denote that count.\<close>

lemma str_nat_value: "decimal_value (str_nat n) = n"
proof (induction n rule: str_nat.induct)
  case (1 n)
  show ?case
  proof (cases "n < 10")
    case True
    then show ?thesis by (subst str_nat.simps) (simp add: digit_char_code decimal_value_def)
  next
    case False
    then have "decimal_value (str_nat (n div 10)) = n div 10" using 1 by simp
    with False show ?thesis
      by (subst str_nat.simps) (simp add: digit_char_code decimal_value_def)
  qed
qed

text \<open>
  C6. At the end of a run that was not aborted, with final state \<open>st\<close>: when the unresolved
  sequence is empty the output is the one line
  \<open>Checked N links: no missing internal markdown links found.\<close> and the exit status is 0;
  otherwise the output is the line \<open>Checked N links: M missing internal links:\<close>, an empty
  line, and one line \<open>In src: -> target  (resolved: cand)\<close> for each unresolved entry, in
  order, and the exit status is 2. \<open>N\<close> and \<open>M\<close> are the checked count and the length
  of the unresolved sequence in decimal.
\<close>

theorem report_and_exit_status:
  assumes "scan isfile isdir root = Inr st"
  shows "main isfile isdir root =
     Inr (if missing st = []
          then (''Checked '' @ str_nat (checked st)
                  @ '' links: no missing internal markdown links found.\<newline>'', 0)
          else (''Checked '' @ str_nat (checked st) @ '' links: ''
                  @ str_nat (length (missing st)) @ '' missing internal links:\<newline>\<newline>''
                  @ concat (map (\<lambda>(src, target, cand).
                       ''In '' @ src @ '': -> '' @ target @ ''  (resolved: '' @ cand @ '')\<newline>'')
                     (missing st)), 2))"
proof -
  have "failure_line = (\<lambda>(src, target, cand).
          ''In '' @ src @ '': -> '' @ target @ ''  (resolved: '' @ cand @ '')\<newline>'')"
    by (auto simp: failure_line_def fun_eq_iff)
  then show ?thesis
    using assms by (simp add: main_def report_def)
qed

theorem report_and_exit_status_witness:
  "scan example_isfile example_isdir example_root =
     Inr \<lparr>missing = [(''./README.md'', ''logo.png'', ''logo.png''),
                      (''./README.md'', ''../missing-page#top'', ''../missing-page'')],
          checked = 7\<rparr>
   \<and> main example_isfile example_isdir example_root =
       Inr (''Checked 7 links: 2 missing internal links:\<newline>\<newline>In ./README.md: -> logo.png  (resolved: logo.png)\<newline>In ./README.md: -> ../missing-page#top  (resolved: ../missing-page)\<newline>'', 2)
   \<and> scan example_isfile example_isdir example_clean = Inr \<lparr>missing = [], checked = 1\<rparr>
   \<and> main example_isfile example_isdir example_clean =
       Inr (''Checked 1 links: no missing internal markdown links found.\<newline>'', 0)"
proof -
  have s1: "scan example_isfile example_isdir example_root =
     Inr \<lparr>missing = [(''./README.md'', ''logo.png'', ''logo.png''),
                      (''./README.md'', ''../missing-page#top'', ''../missing-page'')],
          checked = 7\<rparr>"
    by code_simp
  have s2: "scan example_isfile example_isdir example_clean = Inr \<lparr>missing = [], checked = 1\<rparr>"
    by code_simp
  have n: "str_nat 7 = ''7''" "str_nat (Suc (Suc 0)) = ''2''" "str_nat 1 = ''1''"
    by code_simp+
  show ?thesis
    using s1 s2 n report_and_exit_status [OF s1] report_and_exit_status [OF s2]
    by simp
qed

subsection \<open>What the scan reads\<close>

lemma is_dir_poison: "is_dir (poison t) = is_dir t"
  by (cases t) simp_all

lemma is_dir_hide: "is_dir (hide t) = is_dir t"
  by (cases t) simp_all

lemma walk_hide:
  "walk (\<lambda>d. d \<notin> skip_dirs) dirpath (hide t) = map blank_visit (walk (\<lambda>d. d \<notin> skip_dirs) dirpath t)"
proof (induction "\<lambda>d::string. d \<notin> skip_dirs" dirpath t rule: walk.induct)
  case (1 dirpath c)
  show ?case by simp
next
  case (2 dirpath es)
  let ?keep = "\<lambda>d::string. d \<notin> skip_dirs"
  let ?h = "\<lambda>e::string \<times> fsnode. (fst e,
                    if is_dir (snd e)
                    then (if fst e \<in> skip_dirs then poison (snd e) else hide (snd e))
                    else (if endswith (fst e) ''.md'' then snd e else File None))"
  let ?dirs = "filter (\<lambda>e. ?keep (fst e)) (filter (\<lambda>e. is_dir (snd e)) es)"
  let ?nondirs = "filter (\<lambda>e. \<not> is_dir (snd e)) es"
  have isd: "\<And>e. is_dir (snd (?h e)) = is_dir (snd e)"
    by (simp add: is_dir_poison is_dir_hide)
  have d1: "filter (\<lambda>e. is_dir (snd e)) (map ?h es) = map ?h (filter (\<lambda>e. is_dir (snd e)) es)"
    unfolding filter_map o_def isd ..
  have d2: "filter (\<lambda>e. ?keep (fst e)) (map ?h (filter (\<lambda>e. is_dir (snd e)) es)) = map ?h ?dirs"
    unfolding filter_map o_def by simp
  have d3: "map ?h ?dirs = map (\<lambda>e. (fst e, hide (snd e))) ?dirs"
    by (rule map_cong) auto
  have dirs: "filter (\<lambda>e. ?keep (fst e)) (filter (\<lambda>e. is_dir (snd e)) (map ?h es))
                = map (\<lambda>e. (fst e, hide (snd e))) ?dirs"
    using d1 d2 d3 by simp
  have n1: "filter (\<lambda>e. \<not> is_dir (snd e)) (map ?h es) = map ?h ?nondirs"
    unfolding filter_map o_def isd ..
  have files: "map (\<lambda>e. (fst e, content (snd e))) (map ?h ?nondirs)
                 = blank_files (map (\<lambda>e. (fst e, content (snd e))) ?nondirs)"
    unfolding blank_files_def map_map o_def by (rule map_cong) auto
  have sub: "map (\<lambda>e. walk ?keep (join dirpath (fst e)) (hide (snd e))) ?dirs
               = map (\<lambda>e. map blank_visit (walk ?keep (join dirpath (fst e)) (snd e))) ?dirs"
    by (rule map_cong) (auto intro: "2.hyps")
  show ?case
    by (simp only: hide.simps walk.simps Let_def dirs n1 files)
       (simp add: blank_visit_def o_def map_concat sub del: filter_filter)
qed

lemma scan_files_blank:
  "scan_files isfile isdir dirpath st (blank_files files) = scan_files isfile isdir dirpath st files"
  by (induction files arbitrary: st) (auto simp: blank_files_def Let_def split: option.splits)

lemma scan_visits_blank:
  "scan_visits isfile isdir st (map blank_visit vs) = scan_visits isfile isdir st vs"
proof (induction vs arbitrary: st)
  case Nil
  show ?case by simp
next
  case (Cons v vs)
  obtain dirpath dirs files where v: "v = (dirpath, dirs, files)" by (cases v)
  have "blank_visit v = (dirpath, dirs, blank_files files)"
    by (simp add: v blank_visit_def)
  then show ?case
    by (simp add: v scan_files_blank Cons.IH split: sum.splits)
qed

lemma scan_hide: "scan isfile isdir (hide root) = scan isfile isdir root"
  by (simp add: scan_def walk_hide scan_visits_blank)

text \<open>
  C7. No file below a directory whose name is \<open>.git\<close>, \<open>node_modules\<close> or \<open>db\<close> is
  opened, whatever its name, and among the other files only those whose name ends with
  \<open>.md\<close> are read: when every file below an excluded directory and every file that is not
  named \<open>*.md\<close> is made unreadable, so that opening it would abort the run, the scan ends
  as before, with the same counts and the same unresolved sequence, or with the same
  error. The excluded directories are those below the scan root.
\<close>

theorem excluded_and_non_md_never_read:
  "scan isfile isdir (hide root) = scan isfile isdir root"
  by (rule scan_hide)

theorem excluded_and_non_md_never_read_witness:
  "hide example_root \<noteq> example_root
   \<and> scan example_isfile example_isdir example_root
       = scan example_isfile example_isdir (hide example_root)
   \<and> hide example_root_changed \<noteq> example_root_changed
   \<and> scan example_isfile example_isdir example_root_changed
       = scan example_isfile example_isdir (hide example_root_changed)
   \<and> scan example_isfile example_isdir example_root_changed =
       Inr \<lparr>missing = [(''./README.md'', ''logo.png'', ''logo.png''),
                        (''./README.md'', ''../missing-page#top'', ''../missing-page'')],
            checked = 7\<rparr>"
proof -
  have d: "hide example_root_changed \<noteq> example_root_changed"
    "hide example_root \<noteq> example_root"
    by code_simp+
  have s: "scan example_isfile example_isdir (hide example_root_changed) =
       Inr \<lparr>missing = [(''./README.md'', ''logo.png'', ''logo.png''),
                        (''./README.md'', ''../missing-page#top'', ''../missing-page'')],
            checked = 7\<rparr>"
    by code_simp
  show ?thesis
    using d s
      excluded_and_non_md_never_read [of example_isfile example_isdir example_root_changed]
      excluded_and_non_md_never_read [of example_isfile example_isdir example_root]
    by simp
qed

subsection \<open>What the pattern extracts\<close>

text \<open>
  A match at the head of \<open>s\<close> with group \<open>g\<close> and rest \<open>r\<close> exists exactly when \<open>s\<close> reads
  \<open>[label](g)r\<close> for a label without \<open>]\<close> and a non-empty group without \<open>)\<close>.
\<close>

lemma match_at_iff:
  "match_at s = Some (g, r) \<longleftrightarrow>
     (\<exists>label. s = CHR ''['' # label @ '']('' @ g @ '')'' @ r
        \<and> CHR '']'' \<notin> set label \<and> CHR '')'' \<notin> set g \<and> g \<noteq> [])"
proof
  assume m: "match_at s = Some (g, r)"
  from m obtain s1 where s: "s = CHR ''['' # s1"
    by (cases s) (auto simp: match_at_def split: if_splits)
  from m s obtain s3 where d1: "dropWhile (\<lambda>x. x \<noteq> CHR '']'') s1 = CHR '']'' # CHR ''('' # s3"
    by (auto simp: match_at_def split: if_splits list.splits)
  from m s d1 have g: "g = takeWhile (\<lambda>x. x \<noteq> CHR '')'') s3" and gne: "g \<noteq> []"
    by (auto simp: match_at_def Let_def split: if_splits list.splits)
  from m s d1 obtain c3 where d2: "dropWhile (\<lambda>x. x \<noteq> CHR '')'') s3 = c3 # r"
    by (auto simp: match_at_def Let_def split: if_splits list.splits)
  have c3: "c3 = CHR '')''"
    using hd_dropWhile [of "\<lambda>x. x \<noteq> CHR '')''" s3] d2 by simp
  let ?label = "takeWhile (\<lambda>x. x \<noteq> CHR '']'') s1"
  have "s1 = ?label @ dropWhile (\<lambda>x. x \<noteq> CHR '']'') s1" by simp
  moreover have "s3 = g @ dropWhile (\<lambda>x. x \<noteq> CHR '')'') s3" using g by simp
  ultimately have "s = CHR ''['' # ?label @ '']('' @ g @ '')'' @ r"
    using s d1 d2 c3 by simp
  moreover have "CHR '']'' \<notin> set ?label" by (auto dest: set_takeWhileD)
  moreover have "CHR '')'' \<notin> set g" unfolding g by (auto dest: set_takeWhileD)
  ultimately show "\<exists>label. s = CHR ''['' # label @ '']('' @ g @ '')'' @ r
        \<and> CHR '']'' \<notin> set label \<and> CHR '')'' \<notin> set g \<and> g \<noteq> []"
    using gne by blast
next
  assume "\<exists>label. s = CHR ''['' # label @ '']('' @ g @ '')'' @ r
        \<and> CHR '']'' \<notin> set label \<and> CHR '')'' \<notin> set g \<and> g \<noteq> []"
  then obtain label where s: "s = CHR ''['' # label @ '']('' @ g @ '')'' @ r"
    and l: "CHR '']'' \<notin> set label" and g: "CHR '')'' \<notin> set g" and gne: "g \<noteq> []"
    by blast
  have d1: "dropWhile (\<lambda>x. x \<noteq> CHR '']'') (label @ '']('' @ g @ '')'' @ r) = '']('' @ g @ '')'' @ r"
    using l by (subst dropWhile_append2) auto
  have t2: "takeWhile (\<lambda>x. x \<noteq> CHR '')'') (g @ '')'' @ r) = g"
    using g by (subst takeWhile_append2) auto
  have d2: "dropWhile (\<lambda>x. x \<noteq> CHR '')'') (g @ '')'' @ r) = '')'' @ r"
    using g by (subst dropWhile_append2) auto
  show "match_at s = Some (g, r)"
    using d1 t2 d2 gne by (simp add: match_at_def s)
qed


lemma finditer_skip: "match_at (c # s) = None \<Longrightarrow> finditer (c # s) = finditer s"
  by (subst finditer.simps) simp

lemma match_at_not_bracket: "c \<noteq> CHR ''['' \<Longrightarrow> match_at (c # s) = None"
  by (simp add: match_at_def)

lemma finditer_no_bracket: "CHR ''['' \<notin> set pre \<Longrightarrow> finditer (pre @ s) = finditer s"
  by (induction pre) (auto simp: finditer_skip match_at_not_bracket)


lemma match_at_empty_target:
  assumes "CHR '']'' \<notin> set label"
  shows "match_at (label @ '']()'' @ rest) = None"
proof (cases label)
  case Nil
  then show ?thesis by (simp add: match_at_def)
next
  case (Cons c l)
  with assms have "dropWhile (\<lambda>x. x \<noteq> CHR '']'') (l @ '']()'' @ rest) = '']()'' @ rest"
    by (subst dropWhile_append2) auto
  with Cons show ?thesis by (simp add: match_at_def)
qed

lemma finditer_empty_target:
  "CHR '']'' \<notin> set label \<Longrightarrow> finditer (label @ '']()'' @ rest) = finditer rest"
proof (induction label)
  case Nil
  have "finditer ('']()'' @ rest) = finditer (''()'' @ rest)"
    by (simp add: finditer_skip match_at_not_bracket)
  also have "\<dots> = finditer ('')'' @ rest)"
    by (simp add: finditer_skip match_at_not_bracket)
  also have "\<dots> = finditer rest"
    by (simp add: finditer_skip match_at_not_bracket)
  finally show ?case by simp
next
  case (Cons c label)
  have "match_at ((c # label) @ '']()'' @ rest) = None"
    using Cons.prems by (rule match_at_empty_target)
  then have "finditer ((c # label) @ '']()'' @ rest) = finditer (label @ '']()'' @ rest)"
    by (simp add: finditer_skip)
  with Cons show ?case by simp
qed

lemma finditer_groups_nonempty: "g \<in> set (finditer s) \<Longrightarrow> g \<noteq> []"
proof (induction s rule: finditer.induct)
  case (1 s)
  show ?case
  proof (cases "s = []")
    case True
    with "1.prems" show ?thesis by (simp add: finditer.simps)
  next
    case False
    show ?thesis
    proof (cases "match_at s")
      case None
      with False "1.prems" have "g \<in> set (finditer (tl s))"
        by (subst (asm) finditer.simps) simp
      with "1.IH"(1) [OF False None] show ?thesis .
    next
      case (Some m)
      obtain g' r where m: "m = (g', r)" by (cases m)
      with Some have "g' \<noteq> []" using match_at_iff [of s g' r] by blast
      moreover from False Some m "1.prems" have "g = g' \<or> g \<in> set (finditer r)"
        by (subst (asm) finditer.simps) auto
      ultimately show ?thesis
        using "1.IH"(2) [OF False Some m [symmetric]] by blast
    qed
  qed
qed







text \<open>
  C10. No match has an empty group, so a link \<open>[label]()\<close> is never extracted; and a
  document that begins, after a text without an opening bracket, with such a link (the
  label without \<open>]\<close>) gives the links of the text after it and no more: the empty link adds
  nothing to the checked count or to the unresolved sequence.
\<close>

theorem empty_target_never_extracted:
  "(\<forall>g \<in> set (finditer doc). g \<noteq> [])
   \<and> (CHR ''['' \<notin> set pre \<longrightarrow> CHR '']'' \<notin> set label \<longrightarrow>
        finditer (pre @ ''['' @ label @ '']()'' @ rest) = finditer rest
        \<and> scan_text isfile isdir dirpath fp st (pre @ ''['' @ label @ '']()'' @ rest)
            = scan_text isfile isdir dirpath fp st rest)"
proof -
  have "finditer (pre @ ''['' @ label @ '']()'' @ rest) = finditer rest"
    if "CHR ''['' \<notin> set pre" and "CHR '']'' \<notin> set label"
  proof -
    have "finditer (pre @ ''['' @ label @ '']()'' @ rest) = finditer ((CHR ''['' # label) @ '']()'' @ rest)"
      using that(1) finditer_no_bracket [of pre "''['' @ label @ '']()'' @ rest"] by simp
    also have "\<dots> = finditer rest"
      using that(2) by (intro finditer_empty_target) simp
    finally show ?thesis .
  qed
  then show ?thesis
    by (auto simp: scan_text_def dest: finditer_groups_nonempty)
qed

theorem empty_target_never_extracted_witness:
  "CHR ''['' \<notin> set ''see '' \<and> CHR '']'' \<notin> set ''empty''
   \<and> finditer ''see [empty]() and [x](y)'' = [''y'']
   \<and> scan_text example_isfile example_isdir ''.'' ''./guide.md'' initial_state ''see [empty]()''
       = initial_state
   \<and> [] \<notin> set (finditer ''[home](./README) [top](#top) [empty]()'')"
proof -
  have h: "CHR ''['' \<notin> set ''see ''" "CHR '']'' \<notin> set ''empty''" by simp_all
  have r: "finditer '' and [x](y)'' = [''y'']" "finditer [] = []" by code_simp+
  have e: "scan_text example_isfile example_isdir ''.'' ''./guide.md'' initial_state []
             = initial_state"
    by (simp add: scan_text_def r)
  show ?thesis
    using h r e
      empty_target_never_extracted [of "''[home](./README) [top](#top) [empty]()''"
        "''see ''" "''empty''" "'' and [x](y)''" example_isfile example_isdir "''.''"
        "''./guide.md''" initial_state]
      empty_target_never_extracted [of "[]" "''see ''" "''empty''" "[]" example_isfile
        example_isdir "''.''" "''./guide.md''" initial_state]
    by auto
qed

end
